theory Spec2Isabelle
  imports Main
begin

section \<open>Strings and integers as the plugin reads them\<close>

text \<open>
  The plugin receives its version strings as C strings (\<open>const char *\<close>) and handles
  them as Qt strings. A string is modelled by the list of its characters before the
  terminating NUL. Only ASCII characters (the dot, the decimal digits, a sign, white
  space) are ever inspected, and in UTF-8 no byte of a multi-byte sequence is an ASCII
  character, so working on bytes agrees with working on decoded characters.
\<close>

definition is_digit :: "char \<Rightarrow> bool" where
  "is_digit c = (48 \<le> (of_char c :: nat) \<and> (of_char c :: nat) \<le> 57)"

definition ascii_isspace :: "char \<Rightarrow> bool" where
  "ascii_isspace c = ((of_char c :: nat) = 32 \<or> (9 \<le> (of_char c :: nat) \<and> (of_char c :: nat) \<le> 13))"

definition digit_value :: "char \<Rightarrow> int" where
  "digit_value c = int (of_char c) - 48"

definition decimal_value :: "string \<Rightarrow> int" where
  "decimal_value ds = fold (\<lambda>c n. 10 * n + digit_value c) ds 0"

definition trimmed :: "string \<Rightarrow> string" where
  "trimmed s = rev (dropWhile ascii_isspace (rev (dropWhile ascii_isspace s)))"

text \<open>
  \<open>QString::toInt(bool *ok = nullptr, int base = 10)\<close> is a function of Qt, not of the
  plugin. Its documented behaviour is modelled: white space around the number is
  ignored, one sign is allowed, at least one decimal digit is required, nothing else may
  follow, and the value must fit a 32-bit \<open>int\<close>. \<open>toInt_checked\<close> is the conversion
  with the \<open>ok\<close> flag (\<open>None\<close> when \<open>ok\<close> would be false); \<open>toInt\<close> is what the plugin
  calls, without the flag: "Returns 0 if the conversion fails".
\<close>

definition toInt_checked :: "string \<Rightarrow> int option" where
  "toInt_checked s =
     (let t = trimmed s;
          neg = (t \<noteq> [] \<and> hd t = CHR ''-'');
          ds = (if t \<noteq> [] \<and> (hd t = CHR ''-'' \<or> hd t = CHR ''+'') then tl t else t)
      in if ds = [] \<or> \<not> list_all is_digit ds then None
         else (let v = (if neg then - decimal_value ds else decimal_value ds)
               in if - (2 ^ 31) \<le> v \<and> v \<le> 2 ^ 31 - 1 then Some v else None))"

definition toInt :: "string \<Rightarrow> int" where
  "toInt s = (case toInt_checked s of None \<Rightarrow> 0 | Some v \<Rightarrow> v)"

text \<open>
  \<open>QString::split(sep)\<close> with the default \<open>Qt::KeepEmptyParts\<close>: the string is cut at
  every separator, empty parts are kept, and the empty string gives one empty part.
\<close>

fun split :: "char \<Rightarrow> string \<Rightarrow> string list" where
  "split sep [] = [[]]"
| "split sep (c # cs) =
     (if c = sep then [] # split sep cs
      else (case split sep cs of
              [] \<Rightarrow> [[c]]
            | p # ps \<Rightarrow> (c # p) # ps))"

section \<open>Version comparison (\<open>is_version_supported\<close>, plugin-main.cpp lines 116-134)\<close>

text \<open>
  The loop \<open>for (int i = 0; i < max_parts; i++)\<close> with its two early returns. The
  counter and the sizes are natural numbers here: a list of parts longer than a 32-bit
  \<open>int\<close> can count needs a version string of more than two gigabytes.
\<close>

function version_loop :: "string list \<Rightarrow> string list \<Rightarrow> nat \<Rightarrow> nat \<Rightarrow> bool" where
  "version_loop version_parts min_version_parts max_parts i =
     (if i < max_parts then
        (let version_part = (if i < length version_parts then toInt (version_parts ! i) else 0);
             min_version_part =
               (if i < length min_version_parts then toInt (min_version_parts ! i) else 0)
         in if version_part > min_version_part then True
            else if version_part < min_version_part then False
            else version_loop version_parts min_version_parts max_parts (i + 1))
      else True)"
  by pat_completeness auto
termination
  by (relation "measure (\<lambda>(vp, mp, n, i). n - i)") auto

definition is_version_supported :: "string \<Rightarrow> string \<Rightarrow> bool" where
  "is_version_supported version min_version =
     (let version_parts = split CHR ''.'' version;
          min_version_parts = split CHR ''.'' min_version;
          max_parts = max (length version_parts) (length min_version_parts)
      in version_loop version_parts min_version_parts max_parts 0)"

text \<open>
  The words of the specification, to state the comparison against: the number of fields
  compared, and the integer a version string has at field \<open>i\<close> (zero when the part is
  missing).
\<close>

definition field_count :: "string \<Rightarrow> string \<Rightarrow> nat" where
  "field_count candidate required =
     max (length (split CHR ''.'' candidate)) (length (split CHR ''.'' required))"

definition version_field :: "string \<Rightarrow> nat \<Rightarrow> int" where
  "version_field v i =
     (if i < length (split CHR ''.'' v) then toInt (split CHR ''.'' v ! i) else 0)"

text \<open>The value the loop reads at index \<open>i\<close> of a list of parts.\<close>

definition part_or_zero :: "string list \<Rightarrow> nat \<Rightarrow> int" where
  "part_or_zero ps i = (if i < length ps then toInt (ps ! i) else 0)"

section \<open>The surroundings of the plugin\<close>

text \<open>
  Everything \<open>load_ndilib\<close>, \<open>obs_module_load\<close> and \<open>obs_module_unload\<close> ask of Qt, of
  the operating system, of the NDI library and of the user is a field of the
  environment, so that the plugin's own code is a function of it. The platform selects
  the branches of the conditional compilation (\<open>Q_OS_LINUX\<close>, \<open>Q_OS_MACOS\<close>, neither).
  \<open>qgetenv\<close> gives the empty string for an unset variable, as Qt's does. \<open>entryList\<close>
  is the answer of \<open>dir.entryList(QDir::Files)\<close> for a location once the name filter
  \<open>libndi.so.*\<close> is set, in Qt's order. \<open>NDILIB_LIBRARY_NAME\<close> is a macro of the NDI
  SDK header. \<open>entry_result\<close> is the pointer \<open>NDIlib_v6_load()\<close> returns (\<open>None\<close> for
  a null pointer).
\<close>

datatype platform = Linux | MacOS | Windows

record host_env =
  platform :: platform
  applicationDirPath :: string
  qgetenv :: "string \<Rightarrow> string"
  cleanPath :: "string \<Rightarrow> string"
  absoluteFilePath :: "string \<Rightarrow> string \<Rightarrow> string"
  NDILIB_LIBRARY_NAME :: string
  entryList :: "string \<Rightarrow> string list"
  is_regular_file :: "string \<Rightarrow> bool"
  library_loads :: "string \<Rightarrow> bool"
  entry_resolves :: "string \<Rightarrow> bool"
  entry_result :: "string \<Rightarrow> nat option"
  ndi_initialize :: bool
  ndi_version :: string
  user_opens_download :: bool

section \<open>The state of the plugin\<close>

text \<open>
  The two globals of lines 48-49 are pointers: \<open>None\<close> is \<open>nullptr\<close>. The heap holds
  the \<open>QLibrary\<close> objects that are alive, by address, each with the file it was created
  for; \<open>new\<close> takes a fresh address and \<open>delete\<close> removes the object. The trace records
  the calls the plugin makes, in order; messages logged below \<open>LOG_ERROR\<close> and the
  reads of the version string are not recorded.
\<close>

type_synonym addr = nat

datatype event =
    ListDir string
  | Probe string
  | LibNew addr string
  | LibLoad addr
  | LibResolve addr
  | EntryCall addr
  | LibDelete addr
  | LogError string
  | Dialog
  | OpenUrl
  | NdiInitialize
  | NdiDestroy
  | RegisterSource string
  | RegisterOutput string

record plugin_state =
  loaded_lib :: "addr option"
  ndiLib :: "nat option"
  heap :: "addr \<Rightarrow> string option"
  next_addr :: addr
  trace :: "event list"

definition initial_state :: plugin_state where
  "initial_state =
     \<lparr>loaded_lib = None, ndiLib = None, heap = (\<lambda>a. None), next_addr = 0, trace = []\<rparr>"

definition emit :: "event list \<Rightarrow> plugin_state \<Rightarrow> plugin_state" where
  "emit evs s = s\<lparr>trace := trace s @ evs\<rparr>"

text \<open>Deleting an object that is not alive any more is undefined behaviour in C++.\<close>

datatype fault = DeleteOfDeadObject addr

section \<open>The locator (\<open>load_ndilib\<close>, plugin-main.cpp lines 222-294)\<close>

text \<open>The candidate locations, in the order lines 222-265 append them.\<close>

definition locations :: "host_env \<Rightarrow> string list" where
  "locations env =
     [cleanPath env (applicationDirPath env @ ''/../Frameworks'')]
     @ (if qgetenv env ''NDI_RUNTIME_DIR_V6'' \<noteq> [] then [qgetenv env ''NDI_RUNTIME_DIR_V6''] else [])
     @ (if qgetenv env ''NDILIB_REDIST_FOLDER'' \<noteq> [] then [qgetenv env ''NDILIB_REDIST_FOLDER''] else [])
     @ (if platform env = Linux \<or> platform env = MacOS
        then [''/usr/lib'', ''/usr/local/lib'']
             @ (if platform env = Linux then [''/app/plugins/DistroAV/extra/lib''] else [])
        else [])
     @ [''/Library/NDI SDK for Apple/lib'', ''/Library/NDI/lib'', ''/opt/homebrew/opt/libndi/lib'']"

text \<open>
  The regular expression \<open>libndi\.so\.(\d+)\<close> of line 259, matched anywhere in a file
  name: the first capture of the leftmost match, or \<open>None\<close> without a match. The
  digits are taken greedily.
\<close>

fun libndi_regex :: "string \<Rightarrow> string option" where
  "libndi_regex [] = None"
| "libndi_regex (c # cs) =
     (if take 10 (c # cs) = ''libndi.so.'' \<and> takeWhile is_digit (drop 10 (c # cs)) \<noteq> []
      then Some (takeWhile is_digit (drop 10 (c # cs)))
      else libndi_regex cs)"

text \<open>
  Linux, lines 267-283: the inner loop over the file names of one location and the
  outer loop over the locations, both carrying \<open>max_version\<close> and \<open>lib_path\<close>.
\<close>

fun scan_file_names :: "host_env \<Rightarrow> string \<Rightarrow> string list \<Rightarrow> int \<times> string \<Rightarrow> int \<times> string" where
  "scan_file_names env location [] (max_version, lib_path) = (max_version, lib_path)"
| "scan_file_names env location (file_name # rest) (max_version, lib_path) =
     (case libndi_regex file_name of
        None \<Rightarrow> scan_file_names env location rest (max_version, lib_path)
      | Some captured \<Rightarrow>
          (let version = toInt captured
           in if version > max_version
              then scan_file_names env location rest
                     (version, absoluteFilePath env location file_name)
              else scan_file_names env location rest (max_version, lib_path)))"

fun scan_locations :: "host_env \<Rightarrow> string list \<Rightarrow> int \<times> string \<Rightarrow> int \<times> string" where
  "scan_locations env [] acc = acc"
| "scan_locations env (location # rest) acc =
     scan_locations env rest (scan_file_names env location (entryList env location) acc)"

text \<open>
  The other platforms, lines 267-268 and 285-292: the loop leaves at the first location
  whose file exists and is a regular file. The result is \<open>lib_path\<close> and the probes made.
\<close>

fun probe_locations :: "host_env \<Rightarrow> string list \<Rightarrow> string \<times> event list" where
  "probe_locations env [] = ([], [])"
| "probe_locations env (location # rest) =
     (let temp_path = cleanPath env (absoluteFilePath env location (NDILIB_LIBRARY_NAME env))
      in if is_regular_file env temp_path then (temp_path, [Probe temp_path])
         else (case probe_locations env rest of
                 (lib_path, evs) \<Rightarrow> (lib_path, Probe temp_path # evs)))"

definition locate :: "host_env \<Rightarrow> string \<times> event list" where
  "locate env =
     (if platform env = Linux
      then (snd (scan_locations env (locations env) (0, [])), map ListDir (locations env))
      else probe_locations env (locations env))"

section \<open>The loader (\<open>load_ndilib\<close>, plugin-main.cpp lines 295-324)\<close>

definition load_ndilib :: "host_env \<Rightarrow> plugin_state \<Rightarrow> nat option \<times> plugin_state" where
  "load_ndilib env s =
     (case locate env of (lib_path, probes) \<Rightarrow>
        (let s1 = emit probes s in
         if lib_path \<noteq> [] then
           (let a = next_addr s1;
                s2 = emit [LibNew a lib_path, LibLoad a]
                       (s1\<lparr>loaded_lib := Some a, heap := (heap s1)(a \<mapsto> lib_path),
                           next_addr := Suc a\<rparr>)
            in if library_loads env lib_path then
                 (if entry_resolves env lib_path
                  then (entry_result env lib_path, emit [LibResolve a, EntryCall a] s2)
                  else (None, emit [LibResolve a, LogError ''ERR-405'', LogError ''ERR-404''] s2))
               else (None, emit [LogError ''ERR-402'', LibDelete a, LogError ''ERR-404'']
                             (s2\<lparr>loaded_lib := None, heap := (heap s2)(a := None)\<rparr>)))
         else (None, emit [LogError ''ERR-404''] s1)))"

section \<open>The lifecycle (\<open>obs_module_load\<close> and \<open>obs_module_unload\<close>, lines 136-218)\<close>

definition PLUGIN_MIN_NDI_VERSION :: string where
  "PLUGIN_MIN_NDI_VERSION = ''6.0.0''"

text \<open>
  The regular expression \<open>(\d+\.\d+(\.\d+)?(\.\d+)?$)\<close> of line 174: two to four
  groups of digits separated by dots, reaching the end of the string (or the line feed
  that ends it). \<open>version_regex\<close> is the first capture of the leftmost match, and the
  empty string without a match, as \<open>captured(1)\<close> is.
\<close>

definition is_dotted_version :: "string \<Rightarrow> bool" where
  "is_dotted_version s =
     (let ps = split CHR ''.'' s
      in 2 \<le> length ps \<and> length ps \<le> 4 \<and> list_all (\<lambda>p. p \<noteq> [] \<and> list_all is_digit p) ps)"

fun version_regex :: "string \<Rightarrow> string" where
  "version_regex [] = []"
| "version_regex (c # cs) =
     (if is_dotted_version (c # cs) then c # cs
      else if last (c # cs) = CHR 0x0A \<and> is_dotted_version (butlast (c # cs))
           then butlast (c # cs)
      else version_regex cs)"

definition obs_module_load :: "host_env \<Rightarrow> plugin_state \<Rightarrow> bool \<times> plugin_state" where
  "obs_module_load env s =
     (case load_ndilib env s of (p, s1) \<Rightarrow>
        (let s2 = s1\<lparr>ndiLib := p\<rparr> in
         if p = None then
           (False, emit ([LogError ''ERR-401'', Dialog]
                         @ (if user_opens_download env then [OpenUrl] else [])) s2)
         else if \<not> ndi_initialize env then
           (False, emit [NdiInitialize, LogError ''ERR-406''] s2)
         else
           (let ndi_version_short = version_regex (ndi_version env) in
            if \<not> is_version_supported ndi_version_short PLUGIN_MIN_NDI_VERSION then
              (False, emit [NdiInitialize, LogError ''ERR-425''] s2)
            else
              (True, emit [NdiInitialize, RegisterSource ''ndi_source_info'',
                           RegisterOutput ''ndi_output_info'',
                           RegisterSource ''alpha_filter_info''] s2))))"

definition obs_module_unload :: "plugin_state \<Rightarrow> fault + plugin_state" where
  "obs_module_unload s =
     (let s1 = (if ndiLib s \<noteq> None then emit [NdiDestroy] (s\<lparr>ndiLib := None\<rparr>) else s)
      in case loaded_lib s1 of
           None \<Rightarrow> Inr s1
         | Some a \<Rightarrow>
             (if heap s1 a = None then Inl (DeleteOfDeadObject a)
              else Inr (emit [LibDelete a] (s1\<lparr>heap := (heap s1)(a := None)\<rparr>))))"

text \<open>A sequence of calls of the two hooks by the host, stopping at a fault.\<close>

datatype hook = Load | Unload

fun run_hooks :: "host_env \<Rightarrow> hook list \<Rightarrow> plugin_state \<Rightarrow> fault + plugin_state" where
  "run_hooks env [] s = Inr s"
| "run_hooks env (Load # hs) s = run_hooks env hs (snd (obs_module_load env s))"
| "run_hooks env (Unload # hs) s =
     (case obs_module_unload s of Inl f \<Rightarrow> Inl f | Inr s' \<Rightarrow> run_hooks env hs s')"

text \<open>The fault a run ended with, if any.\<close>

definition fault_of :: "fault + plugin_state \<Rightarrow> fault option" where
  "fault_of r = (case r of Inl f \<Rightarrow> Some f | Inr s \<Rightarrow> None)"

section \<open>Words of the specification for the locator\<close>

text \<open>The file probed at a location on the platforms with one fixed file name.\<close>

definition candidate_path :: "host_env \<Rightarrow> string \<Rightarrow> string" where
  "candidate_path env location =
     cleanPath env (absoluteFilePath env location (NDILIB_LIBRARY_NAME env))"

text \<open>The directory beside the application, and the directories the two variables name.\<close>

definition bundled_dir :: "host_env \<Rightarrow> string" where
  "bundled_dir env = cleanPath env (applicationDirPath env @ ''/../Frameworks'')"

definition env_dirs :: "host_env \<Rightarrow> string list" where
  "env_dirs env =
     filter (\<lambda>d. d \<noteq> []) [qgetenv env ''NDI_RUNTIME_DIR_V6'', qgetenv env ''NDILIB_REDIST_FOLDER'']"

text \<open>
  Linux: every file of every location whose name the regular expression matches, in
  scan order, as location, file name and version number; the highest version number
  among them (0 when there is none); and the first of them with a given number.
\<close>

definition versioned_files :: "host_env \<Rightarrow> (string \<times> string \<times> int) list" where
  "versioned_files env =
     concat (map (\<lambda>location.
        List.map_filter (\<lambda>file_name.
           map_option (\<lambda>captured. (location, file_name, toInt captured)) (libndi_regex file_name))
          (entryList env location))
        (locations env))"

definition highest_version :: "(string \<times> string \<times> int) list \<Rightarrow> int" where
  "highest_version fs = fold (\<lambda>(location, file_name, version) m. max version m) fs 0"

definition first_with_version :: "host_env \<Rightarrow> int \<Rightarrow> (string \<times> string \<times> int) list \<Rightarrow> string" where
  "first_with_version env m fs =
     (case List.find (\<lambda>(location, file_name, version). version = m) fs of
        None \<Rightarrow> []
      | Some (location, file_name, version) \<Rightarrow> absoluteFilePath env location file_name)"

text \<open>
  The two nested loops of the Linux scan as one pass over the matching files, for the
  proofs.
\<close>

fun scan_flat :: "host_env \<Rightarrow> (string \<times> string \<times> int) list \<Rightarrow> int \<times> string \<Rightarrow> int \<times> string" where
  "scan_flat env [] acc = acc"
| "scan_flat env ((location, file_name, version) # rest) (max_version, lib_path) =
     (if version > max_version
      then scan_flat env rest (version, absoluteFilePath env location file_name)
      else scan_flat env rest (max_version, lib_path))"

definition matching_files :: "string \<Rightarrow> string list \<Rightarrow> (string \<times> string \<times> int) list" where
  "matching_files location file_names =
     List.map_filter (\<lambda>file_name.
        map_option (\<lambda>captured. (location, file_name, toInt captured)) (libndi_regex file_name))
       file_names"

text \<open>The maximum the scan carries, started at \<open>m0\<close>.\<close>

definition running_max :: "(string \<times> string \<times> int) list \<Rightarrow> int \<Rightarrow> int" where
  "running_max fs m0 = fold (\<lambda>(location, file_name, version) m. max version m) fs m0"

text \<open>The events by which the loader looks for a library or tries one.\<close>

fun is_search_event :: "event \<Rightarrow> bool" where
  "is_search_event (ListDir d) = True"
| "is_search_event (Probe p) = True"
| "is_search_event (LibNew a p) = True"
| "is_search_event (LibLoad a) = True"
| "is_search_event e = False"

section \<open>Example environments\<close>

text \<open>
  Stand-ins for \<open>QDir::absoluteFilePath\<close> and \<open>QDir::cleanPath\<close> on absolute paths
  with \<open>/\<close> as separator, for the examples only: the theorems hold for any such functions.
\<close>

definition example_absoluteFilePath :: "string \<Rightarrow> string \<Rightarrow> string" where
  "example_absoluteFilePath dir name = dir @ ''/'' @ name"

fun resolve_dots :: "string list \<Rightarrow> string list \<Rightarrow> string list" where
  "resolve_dots done [] = rev done"
| "resolve_dots done (p # ps) =
     (if p = [] \<or> p = ''.'' then resolve_dots done ps
      else if p = ''..'' then resolve_dots (tl done) ps
      else resolve_dots (p # done) ps)"

definition example_cleanPath :: "string \<Rightarrow> string" where
  "example_cleanPath path =
     (let parts = resolve_dots [] (split CHR ''/'' path)
      in if parts = [] then ''/'' else concat (map (\<lambda>p. CHR ''/'' # p) parts))"

text \<open>
  A macOS installation with the library both inside the application bundle and in
  \<open>/usr/local/lib\<close>; the library is NDI 6.0.1 and everything succeeds.
\<close>

definition macos_env :: host_env where
  "macos_env =
     \<lparr>platform = MacOS,
      applicationDirPath = ''/Applications/OBS.app/Contents/MacOS'',
      qgetenv = (\<lambda>name. []),
      cleanPath = example_cleanPath,
      absoluteFilePath = example_absoluteFilePath,
      NDILIB_LIBRARY_NAME = ''libndi.dylib'',
      entryList = (\<lambda>location. []),
      is_regular_file = (\<lambda>path. path = ''/Applications/OBS.app/Contents/Frameworks/libndi.dylib''
                               \<or> path = ''/usr/local/lib/libndi.dylib''),
      library_loads = (\<lambda>path. True),
      entry_resolves = (\<lambda>path. True),
      entry_result = (\<lambda>path. Some 1),
      ndi_initialize = True,
      ndi_version = ''NDI SDK APPLE 10:25:02 Jun 26 2024 6.0.1.0'',
      user_opens_download = False\<rparr>"

text \<open>The same, with a library file that loads but does not export \<open>NDIlib_v6_load\<close>.\<close>

definition macos_env_no_entry :: host_env where
  "macos_env_no_entry = macos_env\<lparr>entry_resolves := (\<lambda>path. False)\<rparr>"

text \<open>The same, with a library whose \<open>initialize\<close> reports failure.\<close>

definition macos_env_no_init :: host_env where
  "macos_env_no_init = macos_env\<lparr>ndi_initialize := False\<rparr>"

text \<open>The same, with a library of version 5.6.1.\<close>

definition macos_env_old :: host_env where
  "macos_env_old = macos_env\<lparr>ndi_version := ''NDI SDK APPLE 08:33:20 Jun 12 2023 5.6.1.0''\<rparr>"

text \<open>The same, with a bundled file that does not load; the one in \<open>/usr/local/lib\<close> would.\<close>

definition macos_env_bad_bundle :: host_env where
  "macos_env_bad_bundle =
     macos_env\<lparr>library_loads := (\<lambda>path. path = ''/usr/local/lib/libndi.dylib'')\<rparr>"

text \<open>
  A Linux installation with \<open>libndi.so.2\<close> and \<open>libndi.so.3\<close> in \<open>/usr/lib\<close> and
  \<open>libndi.so.10\<close> in \<open>/usr/local/lib\<close>.
\<close>

definition linux_env :: host_env where
  "linux_env =
     \<lparr>platform = Linux,
      applicationDirPath = ''/usr/bin'',
      qgetenv = (\<lambda>name. []),
      cleanPath = example_cleanPath,
      absoluteFilePath = example_absoluteFilePath,
      NDILIB_LIBRARY_NAME = ''libndi.so'',
      entryList = (\<lambda>location.
         if location = ''/usr/lib'' then [''libndi.so.2'', ''libndi.so.3'']
         else if location = ''/usr/local/lib'' then [''libndi.so.10'']
         else []),
      is_regular_file = (\<lambda>path. False),
      library_loads = (\<lambda>path. True),
      entry_resolves = (\<lambda>path. True),
      entry_result = (\<lambda>path. Some 1),
      ndi_initialize = True,
      ndi_version = ''NDI SDK LINUX 10:25:02 Jun 26 2024 6.0.1.0'',
      user_opens_download = False\<rparr>"

text \<open>A Linux installation whose only library file is \<open>/usr/lib/libndi.so.0\<close>.\<close>

definition linux_env_zero :: host_env where
  "linux_env_zero =
     linux_env\<lparr>entryList := (\<lambda>location. if location = ''/usr/lib'' then [''libndi.so.0''] else [])\<rparr>"

section \<open>Properties of the version comparison\<close>

declare version_loop.simps [simp del]

lemma version_loop_step:
  "version_loop vp mp n i =
     (if i < n then
        (if part_or_zero vp i > part_or_zero mp i then True
         else if part_or_zero vp i < part_or_zero mp i then False
         else version_loop vp mp n (Suc i))
      else True)"
  by (subst version_loop.simps) (simp add: part_or_zero_def Let_def)

lemma version_loop_all_equal:
  "(\<And>j. i \<le> j \<Longrightarrow> j < n \<Longrightarrow> part_or_zero vp j = part_or_zero mp j) \<Longrightarrow> version_loop vp mp n i"
proof (induction "n - i" arbitrary: i)
  case 0
  then show ?case by (subst version_loop_step) simp
next
  case (Suc d)
  have "version_loop vp mp n (Suc i)"
    using Suc.hyps Suc.prems by (intro Suc.hyps(1)) auto
  moreover have "part_or_zero vp i = part_or_zero mp i"
    using Suc.hyps(2) by (intro Suc.prems) auto
  ultimately show ?case by (subst version_loop_step) simp
qed

lemma version_loop_first_diff:
  assumes "i \<le> k" "k < n"
    and "\<And>j. i \<le> j \<Longrightarrow> j < k \<Longrightarrow> part_or_zero vp j = part_or_zero mp j"
    and "part_or_zero vp k \<noteq> part_or_zero mp k"
  shows "version_loop vp mp n i = (part_or_zero vp k > part_or_zero mp k)"
  using assms
proof (induction "k - i" arbitrary: i)
  case 0
  then have "i = k" by simp
  with 0 show ?case by (subst version_loop_step) auto
next
  case (Suc d)
  have eq: "part_or_zero vp i = part_or_zero mp i"
    using Suc.hyps(2) by (intro Suc.prems(3)) auto
  have "version_loop vp mp n (Suc i) = (part_or_zero vp k > part_or_zero mp k)"
    using Suc.hyps(2) Suc.prems by (intro Suc.hyps(1)) auto
  with eq Suc.prems(1,2) Suc.hyps(2) show ?case by (subst version_loop_step) auto
qed

lemma is_version_supported_loop:
  "is_version_supported c r =
     version_loop (split CHR ''.'' c) (split CHR ''.'' r) (field_count c r) 0"
  by (simp add: is_version_supported_def field_count_def Let_def)

lemma version_field_part: "version_field v i = part_or_zero (split CHR ''.'' v) i"
  by (simp add: version_field_def part_or_zero_def)

lemma example_6_0: "\<not> is_version_supported ''6.0'' ''6.0.0.1''"
  by code_simp

text \<open>
  Claim C1. For every candidate and required version string, \<open>is_version_supported\<close>
  compares the dot-separated fields as integers from the left, up to the longer of the
  two lists, a missing part counting as zero: it answers true at the first field where
  the candidate is greater, false at the first field where it is smaller, and true when
  all fields are equal. A string is supported against itself, and \<open>6.0\<close> is not
  supported against \<open>6.0.0.1\<close>.
\<close>

theorem is_version_supported_fieldwise:
  "(\<forall>i. i < field_count c r \<and> (\<forall>j<i. version_field c j = version_field r j)
        \<and> version_field c i > version_field r i \<longrightarrow> is_version_supported c r)
   \<and> (\<forall>i. i < field_count c r \<and> (\<forall>j<i. version_field c j = version_field r j)
        \<and> version_field c i < version_field r i \<longrightarrow> \<not> is_version_supported c r)
   \<and> ((\<forall>i<field_count c r. version_field c i = version_field r i) \<longrightarrow> is_version_supported c r)
   \<and> is_version_supported c c
   \<and> \<not> is_version_supported ''6.0'' ''6.0.0.1''"
proof (intro conjI allI impI)
  fix i
  assume h: "i < field_count c r \<and> (\<forall>j<i. version_field c j = version_field r j)
        \<and> version_field c i > version_field r i"
  then show "is_version_supported c r"
    unfolding is_version_supported_loop
    using version_loop_first_diff [of 0 i "field_count c r" "split CHR ''.'' c" "split CHR ''.'' r"]
    by (simp add: version_field_part)
next
  fix i
  assume h: "i < field_count c r \<and> (\<forall>j<i. version_field c j = version_field r j)
        \<and> version_field c i < version_field r i"
  then show "\<not> is_version_supported c r"
    unfolding is_version_supported_loop
    using version_loop_first_diff [of 0 i "field_count c r" "split CHR ''.'' c" "split CHR ''.'' r"]
    by (simp add: version_field_part)
next
  assume "\<forall>i<field_count c r. version_field c i = version_field r i"
  then show "is_version_supported c r"
    unfolding is_version_supported_loop
    by (intro version_loop_all_equal) (simp add: version_field_part)
next
  show "is_version_supported c c"
    unfolding is_version_supported_loop by (intro version_loop_all_equal) simp
next
  show "\<not> is_version_supported ''6.0'' ''6.0.0.1''" by (rule example_6_0)
qed

lemma all_less_3: "(\<forall>j<(3::nat). P j) = (P 0 \<and> P 1 \<and> P 2)"
proof -
  have "j < 3 \<longleftrightarrow> j = 0 \<or> j = 1 \<or> j = 2" for j :: nat by arith
  then show ?thesis by auto
qed

theorem is_version_supported_fieldwise_witness:
  "(0 < field_count ''7.0'' ''6.5''
      \<and> version_field ''7.0'' 0 > version_field ''6.5'' 0
      \<and> is_version_supported ''7.0'' ''6.5'')
   \<and> (3 < field_count ''6.0'' ''6.0.0.1''
      \<and> version_field ''6.0'' 0 = version_field ''6.0.0.1'' 0
      \<and> version_field ''6.0'' 1 = version_field ''6.0.0.1'' 1
      \<and> version_field ''6.0'' 2 = version_field ''6.0.0.1'' 2
      \<and> version_field ''6.0'' 3 < version_field ''6.0.0.1'' 3
      \<and> \<not> is_version_supported ''6.0'' ''6.0.0.1'')
   \<and> (field_count ''6.0'' ''6.0.0'' = 3
      \<and> version_field ''6.0'' 0 = version_field ''6.0.0'' 0
      \<and> version_field ''6.0'' 1 = version_field ''6.0.0'' 1
      \<and> version_field ''6.0'' 2 = version_field ''6.0.0'' 2
      \<and> is_version_supported ''6.0'' ''6.0.0'')"
proof -
  have a: "0 < field_count ''7.0'' ''6.5''"
    "version_field ''7.0'' 0 > version_field ''6.5'' 0"
    by code_simp+
  have b: "3 < field_count ''6.0'' ''6.0.0.1''"
    "version_field ''6.0'' 0 = version_field ''6.0.0.1'' 0"
    "version_field ''6.0'' 1 = version_field ''6.0.0.1'' 1"
    "version_field ''6.0'' 2 = version_field ''6.0.0.1'' 2"
    "version_field ''6.0'' 3 < version_field ''6.0.0.1'' 3"
    by code_simp+
  have c: "field_count ''6.0'' ''6.0.0'' = 3"
    "version_field ''6.0'' 0 = version_field ''6.0.0'' 0"
    "version_field ''6.0'' 1 = version_field ''6.0.0'' 1"
    "version_field ''6.0'' 2 = version_field ''6.0.0'' 2"
    by code_simp+
  have "is_version_supported ''7.0'' ''6.5''"
    using is_version_supported_fieldwise [of "''7.0''" "''6.5''"] a by blast
  moreover have "\<not> is_version_supported ''6.0'' ''6.0.0.1''"
    using is_version_supported_fieldwise [of "''6.0''" "''6.0.0.1''"] b
    by (simp add: all_less_3)
  moreover have "is_version_supported ''6.0'' ''6.0.0''"
    using is_version_supported_fieldwise [of "''6.0''" "''6.0.0''"] c
    by (simp add: all_less_3)
  ultimately show ?thesis using a b c by simp
qed

subsection \<open>Fields that do not parse\<close>

lemma set_trimmed: "set (trimmed s) \<subseteq> set s"
proof -
  have "set (dropWhile P xs) \<subseteq> set xs" for P and xs :: string
    by (meson set_dropWhileD subsetI)
  then show ?thesis unfolding trimmed_def
    by (metis set_rev subset_trans)
qed

lemma toInt_checked_no_digit:
  assumes "\<forall>c\<in>set s. \<not> is_digit c"
  shows "toInt_checked s = None"
proof -
  define t where "t = trimmed s"
  define ds where "ds = (if t \<noteq> [] \<and> (hd t = CHR ''-'' \<or> hd t = CHR ''+'') then tl t else t)"
  have "set ds \<subseteq> set t"
    unfolding ds_def by (cases t) auto
  then have "set ds \<subseteq> set s"
    using set_trimmed [of s] unfolding t_def by blast
  then have "ds = [] \<or> \<not> list_all is_digit ds"
    using assms by (cases ds) auto
  then show ?thesis
    unfolding toInt_checked_def Let_def ds_def t_def by simp
qed

lemma toInt_no_digit: "\<forall>c\<in>set s. \<not> is_digit c \<Longrightarrow> toInt s = 0"
  by (simp add: toInt_def toInt_checked_no_digit)

lemma split_parts_subset: "p \<in> set (split sep s) \<Longrightarrow> set p \<subseteq> set s"
proof (induction s arbitrary: p)
  case Nil
  then show ?case by simp
next
  case (Cons c cs)
  show ?case
  proof (cases "c = sep")
    case True
    with Cons show ?thesis by auto
  next
    case False
    show ?thesis
    proof (cases "split sep cs")
      case Nil
      with False Cons.prems show ?thesis by simp
    next
      case (Cons q qs)
      with False Cons.prems have "p = c # q \<or> p \<in> set qs" by simp
      moreover have "set q \<subseteq> set cs" "\<And>r. r \<in> set qs \<Longrightarrow> set r \<subseteq> set cs"
        using Cons.IH Cons by simp_all
      ultimately show ?thesis by auto
    qed
  qed
qed

lemma version_field_no_digit:
  assumes "\<forall>c\<in>set v. \<not> is_digit c"
  shows "version_field v i = 0"
proof (cases "i < length (split CHR ''.'' v)")
  case True
  then have "split CHR ''.'' v ! i \<in> set (split CHR ''.'' v)" by simp
  then have "set (split CHR ''.'' v ! i) \<subseteq> set v" by (rule split_parts_subset)
  with assms have "toInt (split CHR ''.'' v ! i) = 0"
    by (intro toInt_no_digit) blast
  with True show ?thesis by (simp add: version_field_def)
next
  case False
  then show ?thesis by (simp add: version_field_def)
qed

lemma version_field_0_0: "version_field ''0.0'' i = 0"
proof -
  have s: "split CHR ''.'' ''0.0'' = [''0'', ''0'']" by simp
  have z: "toInt ''0'' = 0" by code_simp
  have "i = 0 \<or> i = 1 \<or> 2 \<le> i" by arith
  then show ?thesis unfolding version_field_def s using z by auto
qed

lemma version_field_beyond:
  "field_count c r \<le> i \<Longrightarrow> version_field c i = 0 \<and> version_field r i = 0"
  by (simp add: field_count_def version_field_def)

lemma is_version_supported_lex:
  "is_version_supported c r \<longleftrightarrow>
     \<not> (\<exists>k. (\<forall>j<k. version_field c j = version_field r j) \<and> version_field c k < version_field r k)"
proof (cases "\<exists>k. version_field c k \<noteq> version_field r k")
  case False
  then have "is_version_supported c r"
    unfolding is_version_supported_loop
    by (intro version_loop_all_equal) (simp add: version_field_part)
  with False show ?thesis by auto
next
  case True
  define k0 where "k0 = (LEAST k. version_field c k \<noteq> version_field r k)"
  have diff: "version_field c k0 \<noteq> version_field r k0"
    unfolding k0_def using True by (rule LeastI_ex)
  have below: "version_field c j = version_field r j" if "j < k0" for j
    using that not_less_Least unfolding k0_def by blast
  have "k0 < field_count c r"
    using diff version_field_beyond [of c r k0] by (cases "k0 < field_count c r") auto
  then have res: "is_version_supported c r = (version_field c k0 > version_field r k0)"
    unfolding is_version_supported_loop
    using version_loop_first_diff [of 0 k0 "field_count c r" "split CHR ''.'' c" "split CHR ''.'' r"]
      diff below
    by (simp add: version_field_part)
  show ?thesis
  proof (cases "version_field c k0 < version_field r k0")
    case True
    with below res show ?thesis by auto
  next
    case False
    with diff have gt: "version_field c k0 > version_field r k0" by simp
    have "\<not> ((\<forall>j<k. version_field c j = version_field r j) \<and> version_field c k < version_field r k)" for k
    proof
      assume a: "(\<forall>j<k. version_field c j = version_field r j) \<and> version_field c k < version_field r k"
      then have "\<not> k0 < k" using diff by auto
      moreover have "\<not> k < k0" using a below by auto
      ultimately have "k = k0" by simp
      with a gt show False by simp
    qed
    with res gt show ?thesis by blast
  qed
qed

lemma is_version_supported_fields_only:
  assumes "\<And>i. version_field c i = version_field c' i"
    and "\<And>i. version_field r i = version_field r' i"
  shows "is_version_supported c r = is_version_supported c' r'"
  unfolding is_version_supported_lex using assms by simp

lemma first_difference_decides:
  assumes "\<forall>j<i. version_field c j = version_field r j"
    and "version_field c i \<noteq> version_field r i"
  shows "is_version_supported c r = (version_field c i > version_field r i)"
proof -
  have "i < field_count c r"
    using assms(2) version_field_beyond [of c r i] by (cases "i < field_count c r") auto
  then show ?thesis
    unfolding is_version_supported_loop
    using version_loop_first_diff [of 0 i "field_count c r" "split CHR ''.'' c" "split CHR ''.'' r"]
      assms
    by (simp add: version_field_part)
qed

lemma version_field_unparsable:
  "i < length (split CHR ''.'' v) \<Longrightarrow> toInt_checked (split CHR ''.'' v ! i) = None
     \<Longrightarrow> version_field v i = 0"
  by (simp add: version_field_def toInt_def)

lemma version_field_0: "version_field ''0'' i = 0"
proof -
  have s: "split CHR ''.'' ''0'' = [''0'']" by simp
  have z: "toInt ''0'' = 0" by code_simp
  show ?thesis unfolding version_field_def s using z by auto
qed

lemma example_beta: "\<not> is_version_supported ''beta'' ''1''"
  by code_simp

lemma example_6_x: "\<not> is_version_supported ''6.x'' ''6.1''"
  by code_simp

lemma all_less_1: "(\<forall>j<(1::nat). P j) = P 0"
  by auto

text \<open>
  Claim C9. The comparison is a total function of two arbitrary strings, and a field
  that does not parse as an integer (text without a number, an empty segment) is
  compared as the integer 0. The answer is false exactly when, at the first field where
  the two versions differ, the candidate has the smaller integer. So when a field of
  the candidate does not parse and all fields before it are equal, the candidate is
  not supported if the required version has a positive integer at that field, and is
  supported if it has a negative one; the same holds, mirrored, for a field of the
  required version that does not parse. A string without any decimal digit compares
  exactly as the string \<open>0\<close> does, on either side; in particular such a candidate is
  supported against \<open>0.0\<close>. The candidate \<open>beta\<close> is not supported against \<open>1\<close>,
  nor \<open>6.x\<close> against \<open>6.1\<close>.
\<close>

theorem unparsable_fields_are_zero:
  "(\<forall>i. i < length (split CHR ''.'' v) \<and> toInt_checked (split CHR ''.'' v ! i) = None
        \<longrightarrow> version_field v i = 0)
   \<and> (is_version_supported v r \<longleftrightarrow>
        \<not> (\<exists>k. (\<forall>j<k. version_field v j = version_field r j)
                \<and> version_field v k < version_field r k))
   \<and> (\<forall>i. i < length (split CHR ''.'' v) \<and> toInt_checked (split CHR ''.'' v ! i) = None
        \<and> (\<forall>j<i. version_field v j = version_field r j) \<and> 0 < version_field r i
        \<longrightarrow> \<not> is_version_supported v r)
   \<and> (\<forall>i. i < length (split CHR ''.'' v) \<and> toInt_checked (split CHR ''.'' v ! i) = None
        \<and> (\<forall>j<i. version_field v j = version_field r j) \<and> version_field r i < 0
        \<longrightarrow> is_version_supported v r)
   \<and> (\<forall>i. i < length (split CHR ''.'' r) \<and> toInt_checked (split CHR ''.'' r ! i) = None
        \<and> (\<forall>j<i. version_field v j = version_field r j) \<and> 0 < version_field v i
        \<longrightarrow> is_version_supported v r)
   \<and> (\<forall>i. i < length (split CHR ''.'' r) \<and> toInt_checked (split CHR ''.'' r ! i) = None
        \<and> (\<forall>j<i. version_field v j = version_field r j) \<and> version_field v i < 0
        \<longrightarrow> \<not> is_version_supported v r)
   \<and> ((\<forall>i. version_field v i = version_field v' i)
        \<longrightarrow> is_version_supported v r = is_version_supported v' r
          \<and> is_version_supported r v = is_version_supported r v')
   \<and> ((\<forall>c\<in>set candidate. \<not> is_digit c)
        \<longrightarrow> is_version_supported candidate r = is_version_supported ''0'' r
          \<and> is_version_supported r candidate = is_version_supported r ''0'')
   \<and> ((\<forall>c\<in>set candidate. \<not> is_digit c) \<longrightarrow> is_version_supported candidate ''0.0'')
   \<and> \<not> is_version_supported ''beta'' ''1''
   \<and> \<not> is_version_supported ''6.x'' ''6.1''"
proof (intro conjI allI impI)
  fix i
  assume "i < length (split CHR ''.'' v) \<and> toInt_checked (split CHR ''.'' v ! i) = None"
  then show "version_field v i = 0"
    by (simp add: version_field_unparsable)
next
  show "is_version_supported v r \<longleftrightarrow>
        \<not> (\<exists>k. (\<forall>j<k. version_field v j = version_field r j)
                \<and> version_field v k < version_field r k)"
    by (rule is_version_supported_lex)
next
  fix i
  assume a: "i < length (split CHR ''.'' v) \<and> toInt_checked (split CHR ''.'' v ! i) = None
        \<and> (\<forall>j<i. version_field v j = version_field r j) \<and> 0 < version_field r i"
  then have z: "version_field v i = 0" by (simp add: version_field_unparsable)
  with a show "\<not> is_version_supported v r"
    using first_difference_decides [of i v r] by simp
next
  fix i
  assume a: "i < length (split CHR ''.'' v) \<and> toInt_checked (split CHR ''.'' v ! i) = None
        \<and> (\<forall>j<i. version_field v j = version_field r j) \<and> version_field r i < 0"
  then have z: "version_field v i = 0" by (simp add: version_field_unparsable)
  with a show "is_version_supported v r"
    using first_difference_decides [of i v r] by simp
next
  fix i
  assume a: "i < length (split CHR ''.'' r) \<and> toInt_checked (split CHR ''.'' r ! i) = None
        \<and> (\<forall>j<i. version_field v j = version_field r j) \<and> 0 < version_field v i"
  then have z: "version_field r i = 0" by (simp add: version_field_unparsable)
  with a show "is_version_supported v r"
    using first_difference_decides [of i v r] by simp
next
  fix i
  assume a: "i < length (split CHR ''.'' r) \<and> toInt_checked (split CHR ''.'' r ! i) = None
        \<and> (\<forall>j<i. version_field v j = version_field r j) \<and> version_field v i < 0"
  then have z: "version_field r i = 0" by (simp add: version_field_unparsable)
  with a show "\<not> is_version_supported v r"
    using first_difference_decides [of i v r] by simp
next
  assume "\<forall>i. version_field v i = version_field v' i"
  then show "is_version_supported v r = is_version_supported v' r"
    by (intro is_version_supported_fields_only) simp_all
next
  assume "\<forall>i. version_field v i = version_field v' i"
  then show "is_version_supported r v = is_version_supported r v'"
    by (intro is_version_supported_fields_only) simp_all
next
  assume "\<forall>c\<in>set candidate. \<not> is_digit c"
  then show "is_version_supported candidate r = is_version_supported ''0'' r"
    by (intro is_version_supported_fields_only)
      (simp_all add: version_field_no_digit version_field_0)
next
  assume "\<forall>c\<in>set candidate. \<not> is_digit c"
  then show "is_version_supported r candidate = is_version_supported r ''0''"
    by (intro is_version_supported_fields_only)
      (simp_all add: version_field_no_digit version_field_0)
next
  assume "\<forall>c\<in>set candidate. \<not> is_digit c"
  then have "version_field candidate i = version_field ''0.0'' i" for i
    by (simp add: version_field_no_digit version_field_0_0)
  then show "is_version_supported candidate ''0.0''"
    unfolding is_version_supported_loop
    by (intro version_loop_all_equal) (simp add: version_field_part)
next
  show "\<not> is_version_supported ''beta'' ''1''" by (rule example_beta)
next
  show "\<not> is_version_supported ''6.x'' ''6.1''" by (rule example_6_x)
qed

theorem unparsable_fields_are_zero_witness:
  "(1 < length (split CHR ''.'' ''6.beta..1'') \<and> toInt_checked (split CHR ''.'' ''6.beta..1'' ! 1) = None
      \<and> version_field ''6.beta..1'' 1 = 0)
   \<and> (2 < length (split CHR ''.'' ''6.beta..1'') \<and> toInt_checked (split CHR ''.'' ''6.beta..1'' ! 2) = None
      \<and> version_field ''6.beta..1'' 2 = 0)
   \<and> (version_field ''beta'' 0 < version_field ''1.0'' 0 \<and> \<not> is_version_supported ''beta'' ''1.0'')
   \<and> (1 < length (split CHR ''.'' ''6.x'') \<and> toInt_checked (split CHR ''.'' ''6.x'' ! 1) = None
      \<and> version_field ''6.x'' 0 = version_field ''6.2'' 0 \<and> 0 < version_field ''6.2'' 1
      \<and> \<not> is_version_supported ''6.x'' ''6.2'')
   \<and> (version_field ''6.x'' 0 = version_field ''6.-1'' 0 \<and> version_field ''6.-1'' 1 < 0
      \<and> is_version_supported ''6.x'' ''6.-1'')
   \<and> (0 < version_field ''6.2'' 1 \<and> is_version_supported ''6.2'' ''6.x'')
   \<and> (version_field ''6.-1'' 1 < 0 \<and> \<not> is_version_supported ''6.-1'' ''6.x'')
   \<and> is_version_supported ''6.beta..1'' ''6.0.0'' = is_version_supported ''6.0.0.1'' ''6.0.0''
   \<and> is_version_supported ''6.0.1'' ''6.beta..1'' = is_version_supported ''6.0.1'' ''6.0.0.1''
   \<and> (list_all (\<lambda>c. \<not> is_digit c) ''v.x-rc''
      \<and> is_version_supported ''v.x-rc'' ''0.0''
      \<and> \<not> is_version_supported ''v.x-rc'' ''0.1''
      \<and> is_version_supported ''0.1'' ''v.x-rc'')"
proof -
  have a: "1 < length (split CHR ''.'' ''6.beta..1'') \<and> toInt_checked (split CHR ''.'' ''6.beta..1'' ! 1) = None"
    by code_simp
  have b: "2 < length (split CHR ''.'' ''6.beta..1'') \<and> toInt_checked (split CHR ''.'' ''6.beta..1'' ! 2) = None"
    by code_simp
  have c: "list_all (\<lambda>c. \<not> is_digit c) ''v.x-rc''"
    by code_simp
  then have c': "\<forall>c\<in>set ''v.x-rc''. \<not> is_digit c"
    unfolding list_all_iff .
  have s: "split CHR ''.'' ''6.beta..1'' = [''6'', ''beta'', [], ''1'']"
    "split CHR ''.'' ''6.0.0.1'' = [''6'', ''0'', ''0'', ''1'']"
    by simp_all
  have t: "toInt ''beta'' = 0" "toInt [] = 0" "toInt ''0'' = 0"
    by code_simp+
  have d: "version_field ''6.beta..1'' i = version_field ''6.0.0.1'' i" for i
  proof -
    have "i = 0 \<or> i = 1 \<or> i = 2 \<or> i = 3 \<or> 4 \<le> i" by arith
    then show ?thesis unfolding version_field_def s using t by auto
  qed
  have e: "version_field ''beta'' 0 < version_field ''1.0'' 0" by code_simp
  have f: "1 < length (split CHR ''.'' ''6.x'') \<and> toInt_checked (split CHR ''.'' ''6.x'' ! 1) = None"
    by code_simp
  have g: "version_field ''6.x'' 0 = version_field ''6.2'' 0" "0 < version_field ''6.2'' 1"
    "version_field ''6.x'' 0 = version_field ''6.-1'' 0" "version_field ''6.-1'' 1 < 0"
    "version_field ''6.2'' 0 = version_field ''6.x'' 0"
    "version_field ''6.-1'' 0 = version_field ''6.x'' 0"
    by code_simp+
  have z: "is_version_supported ''0.1'' ''0''" "\<not> is_version_supported ''0'' ''0.1''"
    by code_simp+
  have 1: "\<not> is_version_supported ''beta'' ''1.0''"
  proof -
    have "(\<forall>j<0. version_field ''beta'' j = version_field ''1.0'' j)
        \<and> version_field ''beta'' 0 < version_field ''1.0'' 0"
      using e by simp
    then have "\<exists>k. (\<forall>j<k. version_field ''beta'' j = version_field ''1.0'' j)
        \<and> version_field ''beta'' k < version_field ''1.0'' k"
      by (rule exI)
    then show ?thesis
      using unparsable_fields_are_zero [of "''beta''" "''1.0''", THEN conjunct2, THEN conjunct1] by simp
  qed
  have 2: "\<not> is_version_supported ''6.x'' ''6.2''"
  proof -
    have "\<forall>j<1. version_field ''6.x'' j = version_field ''6.2'' j"
      using g(1) by (simp add: all_less_1)
    with f g(2) have "1 < length (split CHR ''.'' ''6.x'')
        \<and> toInt_checked (split CHR ''.'' ''6.x'' ! 1) = None
        \<and> (\<forall>j<1. version_field ''6.x'' j = version_field ''6.2'' j)
        \<and> 0 < version_field ''6.2'' 1"
      by simp
    then show ?thesis
      by (rule unparsable_fields_are_zero [of "''6.x''" "''6.2''", THEN conjunct2, THEN conjunct2, THEN conjunct1, rule_format])
  qed
  have 3: "is_version_supported ''6.x'' ''6.-1''"
  proof -
    have "\<forall>j<1. version_field ''6.x'' j = version_field ''6.-1'' j"
      using g(3) by (simp add: all_less_1)
    with f g(4) have "1 < length (split CHR ''.'' ''6.x'')
        \<and> toInt_checked (split CHR ''.'' ''6.x'' ! 1) = None
        \<and> (\<forall>j<1. version_field ''6.x'' j = version_field ''6.-1'' j)
        \<and> version_field ''6.-1'' 1 < 0"
      by simp
    then show ?thesis
      by (rule unparsable_fields_are_zero [of "''6.x''" "''6.-1''", THEN conjunct2, THEN conjunct2, THEN conjunct2, THEN conjunct1, rule_format])
  qed
  have 4: "is_version_supported ''6.2'' ''6.x''"
  proof -
    have "\<forall>j<1. version_field ''6.2'' j = version_field ''6.x'' j"
      using g(5) by (simp add: all_less_1)
    with f g(2) have "1 < length (split CHR ''.'' ''6.x'')
        \<and> toInt_checked (split CHR ''.'' ''6.x'' ! 1) = None
        \<and> (\<forall>j<1. version_field ''6.2'' j = version_field ''6.x'' j)
        \<and> 0 < version_field ''6.2'' 1"
      by simp
    then show ?thesis
      by (rule unparsable_fields_are_zero [of "''6.2''" "''6.x''", THEN conjunct2, THEN conjunct2, THEN conjunct2, THEN conjunct2, THEN conjunct1, rule_format])
  qed
  have 5: "\<not> is_version_supported ''6.-1'' ''6.x''"
  proof -
    have "\<forall>j<1. version_field ''6.-1'' j = version_field ''6.x'' j"
      using g(6) by (simp add: all_less_1)
    with f g(4) have "1 < length (split CHR ''.'' ''6.x'')
        \<and> toInt_checked (split CHR ''.'' ''6.x'' ! 1) = None
        \<and> (\<forall>j<1. version_field ''6.-1'' j = version_field ''6.x'' j)
        \<and> version_field ''6.-1'' 1 < 0"
      by simp
    then show ?thesis
      by (rule unparsable_fields_are_zero [of "''6.-1''" "''6.x''", THEN conjunct2, THEN conjunct2, THEN conjunct2, THEN conjunct2, THEN conjunct2, THEN conjunct1, rule_format])
  qed
  have 6: "version_field ''6.beta..1'' 1 = 0" "version_field ''6.beta..1'' 2 = 0"
    using unparsable_fields_are_zero [of "''6.beta..1''", THEN conjunct1] a b by blast+
  have d': "\<forall>i. version_field ''6.beta..1'' i = version_field ''6.0.0.1'' i"
    using d by simp
  have 7: "is_version_supported ''6.beta..1'' ''6.0.0'' = is_version_supported ''6.0.0.1'' ''6.0.0''"
    using unparsable_fields_are_zero [of "''6.beta..1''" "''6.0.0''" "''6.0.0.1''", THEN conjunct2, THEN conjunct2, THEN conjunct2, THEN conjunct2, THEN conjunct2, THEN conjunct2, THEN conjunct1] d' by blast
  have 8: "is_version_supported ''6.0.1'' ''6.beta..1'' = is_version_supported ''6.0.1'' ''6.0.0.1''"
    using unparsable_fields_are_zero [of "''6.beta..1''" "''6.0.1''" "''6.0.0.1''", THEN conjunct2, THEN conjunct2, THEN conjunct2, THEN conjunct2, THEN conjunct2, THEN conjunct2, THEN conjunct1] d' by blast
  have 9: "is_version_supported ''v.x-rc'' ''0.0''"
    using unparsable_fields_are_zero [of _ _ _ "''v.x-rc''", THEN conjunct2, THEN conjunct2, THEN conjunct2, THEN conjunct2, THEN conjunct2, THEN conjunct2, THEN conjunct2, THEN conjunct2, THEN conjunct1] c' by blast
  have 10: "\<not> is_version_supported ''v.x-rc'' ''0.1''" "is_version_supported ''0.1'' ''v.x-rc''"
    using unparsable_fields_are_zero [of _ "''0.1''" _ "''v.x-rc''", THEN conjunct2, THEN conjunct2, THEN conjunct2, THEN conjunct2, THEN conjunct2, THEN conjunct2, THEN conjunct2, THEN conjunct1] c' z by blast+
  show ?thesis
    using a b c e f g(1-4) 1 2 3 4 5 6 7 8 9 10 by blast
qed

section \<open>Properties of the locator\<close>

subsection \<open>The Linux scan\<close>

lemma versioned_files_matching:
  "versioned_files env = concat (map (\<lambda>l. matching_files l (entryList env l)) (locations env))"
  by (simp add: versioned_files_def matching_files_def)

lemma matching_files_Cons:
  "matching_files l (f # fs) =
     (case libndi_regex f of None \<Rightarrow> matching_files l fs
      | Some cap \<Rightarrow> (l, f, toInt cap) # matching_files l fs)"
  by (simp add: matching_files_def map_filter_simps split: option.splits)

lemma scan_file_names_flat:
  "scan_file_names env l fs acc = scan_flat env (matching_files l fs) acc"
proof (induction fs arbitrary: acc)
  case Nil
  then show ?case by (cases acc) (simp add: matching_files_def map_filter_simps)
next
  case (Cons f fs)
  obtain m p where acc: "acc = (m, p)" by (cases acc)
  show ?case
    unfolding acc by (simp add: matching_files_Cons Cons.IH Let_def split: option.splits)
qed

lemma scan_flat_append:
  "scan_flat env (xs @ ys) acc = scan_flat env ys (scan_flat env xs acc)"
proof (induction xs arbitrary: acc)
  case Nil
  then show ?case by simp
next
  case (Cons x xs)
  obtain l f v where x: "x = (l, f, v)" by (cases x)
  obtain m p where acc: "acc = (m, p)" by (cases acc)
  show ?case unfolding x acc by (simp add: Cons.IH)
qed

lemma scan_locations_flat:
  "scan_locations env ls acc =
     scan_flat env (concat (map (\<lambda>l. matching_files l (entryList env l)) ls)) acc"
  by (induction ls arbitrary: acc) (simp_all add: scan_file_names_flat scan_flat_append)

lemma running_max_Cons: "running_max ((l, f, v) # fs) m0 = running_max fs (max v m0)"
  by (simp add: running_max_def)

lemma running_max_ge: "m0 \<le> running_max fs m0"
proof (induction fs arbitrary: m0)
  case Nil
  then show ?case by (simp add: running_max_def)
next
  case (Cons x fs)
  obtain l f v where x: "x = (l, f, v)" by (cases x)
  have "max v m0 \<le> running_max fs (max v m0)" by (rule Cons.IH)
  then show ?case unfolding x running_max_Cons by simp
qed

lemma running_max_bounds: "(l, f, v) \<in> set fs \<Longrightarrow> v \<le> running_max fs m0"
proof (induction fs arbitrary: m0)
  case Nil
  then show ?case by simp
next
  case (Cons x fs)
  obtain l' f' v' where x: "x = (l', f', v')" by (cases x)
  show ?case
  proof (cases "(l, f, v) = x")
    case True
    then have "v = v'" using x by simp
    moreover have "max v' m0 \<le> running_max fs (max v' m0)" by (rule running_max_ge)
    ultimately show ?thesis unfolding x running_max_Cons by simp
  next
    case False
    with Cons.prems have "(l, f, v) \<in> set fs" by simp
    then show ?thesis unfolding x running_max_Cons by (rule Cons.IH)
  qed
qed

lemma first_with_version_Cons:
  "first_with_version env m ((l, f, v) # fs) =
     (if v = m then absoluteFilePath env l f else first_with_version env m fs)"
  by (simp add: first_with_version_def)

lemma scan_flat_result:
  "scan_flat env fs (m0, p0) =
     (running_max fs m0,
      if m0 < running_max fs m0 then first_with_version env (running_max fs m0) fs else p0)"
proof (induction fs arbitrary: m0 p0)
  case Nil
  then show ?case by (simp add: running_max_def)
next
  case (Cons x fs)
  obtain l f v where x: "x = (l, f, v)" by (cases x)
  show ?case
  proof (cases "m0 < v")
    case True
    then have mx: "max v m0 = v" by simp
    have ge: "v \<le> running_max fs v" by (rule running_max_ge)
    show ?thesis
      unfolding x using True ge
      by (auto simp: Cons.IH running_max_Cons mx first_with_version_Cons)
  next
    case False
    then have mx: "max v m0 = m0" by simp
    show ?thesis
      unfolding x using False
      by (auto simp: Cons.IH running_max_Cons mx first_with_version_Cons)
  qed
qed

lemma highest_version_running_max: "highest_version fs = running_max fs 0"
  by (simp add: highest_version_def running_max_def)

lemma first_with_version_member:
  "(l0, f0, m) \<in> set fs \<Longrightarrow>
     \<exists>l f. (l, f, m) \<in> set fs \<and> first_with_version env m fs = absoluteFilePath env l f"
proof (induction fs)
  case Nil
  then show ?case by simp
next
  case (Cons x fs)
  obtain l' f' v' where x: "x = (l', f', v')" by (cases x)
  show ?case
  proof (cases "v' = m")
    case True
    then show ?thesis unfolding x by (auto simp: first_with_version_Cons)
  next
    case False
    with Cons.prems x have "(l0, f0, m) \<in> set fs" by simp
    then obtain l f where "(l, f, m) \<in> set fs"
      "first_with_version env m fs = absoluteFilePath env l f"
      using Cons.IH by blast
    with False show ?thesis unfolding x by (auto simp: first_with_version_Cons)
  qed
qed

lemma running_max_attained:
  "m0 < running_max fs m0 \<Longrightarrow> \<exists>l f. (l, f, running_max fs m0) \<in> set fs"
proof (induction fs arbitrary: m0)
  case Nil
  then show ?case by (simp add: running_max_def)
next
  case (Cons x fs)
  obtain l f v where x: "x = (l, f, v)" by (cases x)
  show ?case
  proof (cases "max v m0 < running_max fs (max v m0)")
    case True
    then obtain l' f' where "(l', f', running_max fs (max v m0)) \<in> set fs"
      using Cons.IH by blast
    then show ?thesis unfolding x running_max_Cons by auto
  next
    case False
    moreover have "max v m0 \<le> running_max fs (max v m0)" by (rule running_max_ge)
    ultimately have eq: "running_max fs (max v m0) = max v m0" by (rule_tac antisym) (simp_all only: not_less)
    moreover have "m0 < running_max fs (max v m0)"
      using Cons.prems unfolding x running_max_Cons .
    ultimately have "running_max fs (max v m0) = v"
      by (simp add: max_def split: if_splits)
    then show ?thesis unfolding x running_max_Cons by auto
  qed
qed

lemma locate_linux:
  assumes "platform env = Linux"
  shows "locate env =
     (if 0 < highest_version (versioned_files env)
      then first_with_version env (highest_version (versioned_files env)) (versioned_files env)
      else [],
      map ListDir (locations env))"
  using assms
  by (simp add: locate_def scan_locations_flat scan_flat_result versioned_files_matching
      highest_version_running_max)

text \<open>
  Claim C5, as amended. On Linux the locator lists every candidate location, reads the
  number after \<open>libndi.so.\<close> in each matching file name as an integer, and selects
  the first file in scan order whose number is the highest over all locations, provided
  that number is greater than 0; when no matching file has a number above 0, no file is
  selected. With \<open>libndi.so.2\<close> and \<open>libndi.so.3\<close> in one location and
  \<open>libndi.so.10\<close> in a later one, the file \<open>libndi.so.10\<close> is selected.
\<close>

theorem linux_selects_highest_version_above_zero:
  assumes "platform env = Linux"
  shows "snd (locate env) = map ListDir (locations env)
     \<and> (\<forall>(l, f, v) \<in> set (versioned_files env). v \<le> highest_version (versioned_files env))
     \<and> (0 < highest_version (versioned_files env) \<longrightarrow>
          fst (locate env) =
            first_with_version env (highest_version (versioned_files env)) (versioned_files env)
          \<and> (\<exists>l f. (l, f, highest_version (versioned_files env)) \<in> set (versioned_files env)
                 \<and> fst (locate env) = absoluteFilePath env l f))
     \<and> (\<not> 0 < highest_version (versioned_files env) \<longrightarrow> fst (locate env) = [])"
proof (intro conjI impI)
  show "snd (locate env) = map ListDir (locations env)"
    using assms by (simp add: locate_linux)
next
  show "\<forall>(l, f, v) \<in> set (versioned_files env). v \<le> highest_version (versioned_files env)"
    unfolding highest_version_running_max using running_max_bounds by blast
next
  assume pos: "0 < highest_version (versioned_files env)"
  then show sel: "fst (locate env) =
      first_with_version env (highest_version (versioned_files env)) (versioned_files env)"
    using assms by (simp add: locate_linux)
  from pos obtain l0 f0 where "(l0, f0, highest_version (versioned_files env)) \<in> set (versioned_files env)"
    unfolding highest_version_running_max using running_max_attained by blast
  then show "\<exists>l f. (l, f, highest_version (versioned_files env)) \<in> set (versioned_files env)
      \<and> fst (locate env) = absoluteFilePath env l f"
    unfolding sel by (rule first_with_version_member)
next
  assume "\<not> 0 < highest_version (versioned_files env)"
  then show "fst (locate env) = []"
    using assms by (simp add: locate_linux)
qed

theorem linux_selects_highest_version_above_zero_witness:
  "platform linux_env = Linux
   \<and> 0 < highest_version (versioned_files linux_env)
   \<and> fst (locate linux_env) = ''/usr/local/lib/libndi.so.10''
   \<and> snd (locate linux_env) = map ListDir (locations linux_env)
   \<and> platform linux_env_zero = Linux
   \<and> \<not> 0 < highest_version (versioned_files linux_env_zero)
   \<and> fst (locate linux_env_zero) = []"
proof -
  have p: "platform linux_env = Linux" by (simp add: linux_env_def)
  have h: "0 < highest_version (versioned_files linux_env)" by code_simp
  have e: "first_with_version linux_env (highest_version (versioned_files linux_env))
             (versioned_files linux_env) = ''/usr/local/lib/libndi.so.10''"
    by code_simp
  have pz: "platform linux_env_zero = Linux" by (simp add: linux_env_zero_def linux_env_def)
  have hz: "\<not> 0 < highest_version (versioned_files linux_env_zero)" by code_simp
  show ?thesis
    using linux_selects_highest_version_above_zero [OF p]
      linux_selects_highest_version_above_zero [OF pz] p h e pz hz
    by simp
qed

theorem version_zero_file_not_selected_counterexample:
  "platform linux_env_zero = Linux
   \<and> entryList linux_env_zero ''/usr/lib'' = [''libndi.so.0'']
   \<and> libndi_regex ''libndi.so.0'' = Some ''0''
   \<and> versioned_files linux_env_zero = [(''/usr/lib'', ''libndi.so.0'', 0)]
   \<and> fst (locate linux_env_zero) = []"
  by code_simp

subsection \<open>The first existing file\<close>

lemma probe_locations_Cons:
  "probe_locations env (l # ls) =
     (if is_regular_file env (candidate_path env l)
      then (candidate_path env l, [Probe (candidate_path env l)])
      else (fst (probe_locations env ls), Probe (candidate_path env l) # snd (probe_locations env ls)))"
  by (simp add: candidate_path_def Let_def split: prod.splits)

lemma probe_locations_find:
  "probe_locations env ls =
     (case List.find (is_regular_file env) (map (candidate_path env) ls) of
        None \<Rightarrow> ([], map Probe (map (candidate_path env) ls))
      | Some p \<Rightarrow>
          (p, map Probe (takeWhile (\<lambda>q. \<not> is_regular_file env q) (map (candidate_path env) ls) @ [p])))"
proof (induction ls)
  case Nil
  then show ?case by simp
next
  case (Cons l ls)
  show ?case
    unfolding probe_locations_Cons Cons.IH
    by (simp split: option.splits)
qed

lemma locations_not_linux:
  "platform env \<noteq> Linux \<Longrightarrow>
     locations env =
       bundled_dir env # env_dirs env
       @ (if platform env = MacOS then [''/usr/lib'', ''/usr/local/lib''] else [])
       @ [''/Library/NDI SDK for Apple/lib'', ''/Library/NDI/lib'', ''/opt/homebrew/opt/libndi/lib'']"
  by (simp add: locations_def bundled_dir_def env_dirs_def)

text \<open>
  Claim C6. On the platforms with a single library file of fixed name (all but Linux)
  the locator probes the candidate locations in priority order: the directory bundled
  beside the application first, then the directories the environment variables name,
  then the system and vendor directories. It stops at the first location whose file
  exists and is a regular file, and selects that file; so when the bundled file exists
  it is selected, whatever exists in a system directory.
\<close>

theorem first_existing_candidate_is_selected:
  assumes "platform env \<noteq> Linux"
  shows "locations env =
       bundled_dir env # env_dirs env
       @ (if platform env = MacOS then [''/usr/lib'', ''/usr/local/lib''] else [])
       @ [''/Library/NDI SDK for Apple/lib'', ''/Library/NDI/lib'', ''/opt/homebrew/opt/libndi/lib'']
     \<and> locate env =
         (case List.find (is_regular_file env) (map (candidate_path env) (locations env)) of
            None \<Rightarrow> ([], map Probe (map (candidate_path env) (locations env)))
          | Some p \<Rightarrow>
              (p, map Probe (takeWhile (\<lambda>q. \<not> is_regular_file env q)
                               (map (candidate_path env) (locations env)) @ [p])))
     \<and> (is_regular_file env (candidate_path env (bundled_dir env)) \<longrightarrow>
          locate env = (candidate_path env (bundled_dir env),
                        [Probe (candidate_path env (bundled_dir env))]))"
proof (intro conjI impI)
  show loc: "locations env =
       bundled_dir env # env_dirs env
       @ (if platform env = MacOS then [''/usr/lib'', ''/usr/local/lib''] else [])
       @ [''/Library/NDI SDK for Apple/lib'', ''/Library/NDI/lib'', ''/opt/homebrew/opt/libndi/lib'']"
    using assms by (rule locations_not_linux)
  show gen: "locate env =
         (case List.find (is_regular_file env) (map (candidate_path env) (locations env)) of
            None \<Rightarrow> ([], map Probe (map (candidate_path env) (locations env)))
          | Some p \<Rightarrow>
              (p, map Probe (takeWhile (\<lambda>q. \<not> is_regular_file env q)
                               (map (candidate_path env) (locations env)) @ [p])))"
    using assms by (simp add: locate_def probe_locations_find)
  assume "is_regular_file env (candidate_path env (bundled_dir env))"
  then show "locate env = (candidate_path env (bundled_dir env),
                        [Probe (candidate_path env (bundled_dir env))])"
    unfolding gen unfolding loc by simp
qed

theorem first_existing_candidate_is_selected_witness:
  "platform macos_env \<noteq> Linux
   \<and> is_regular_file macos_env (candidate_path macos_env (bundled_dir macos_env))
   \<and> is_regular_file macos_env (candidate_path macos_env ''/usr/local/lib'')
   \<and> locate macos_env =
       (''/Applications/OBS.app/Contents/Frameworks/libndi.dylib'',
        [Probe ''/Applications/OBS.app/Contents/Frameworks/libndi.dylib''])"
proof -
  have p: "platform macos_env \<noteq> Linux" by (simp add: macos_env_def)
  have b: "is_regular_file macos_env (candidate_path macos_env (bundled_dir macos_env))"
    by code_simp
  have c: "candidate_path macos_env (bundled_dir macos_env) =
      ''/Applications/OBS.app/Contents/Frameworks/libndi.dylib''"
    by code_simp
  have u: "is_regular_file macos_env (candidate_path macos_env ''/usr/local/lib'')"
    by code_simp
  have "locate macos_env =
      (candidate_path macos_env (bundled_dir macos_env),
       [Probe (candidate_path macos_env (bundled_dir macos_env))])"
    using first_existing_candidate_is_selected [OF p] b by blast
  then show ?thesis using p b u by (simp add: c)
qed

section \<open>Properties of the loader and of the lifecycle\<close>

text \<open>
  Claim C10. The loader does not fall back to another candidate. When the locator has
  selected a path and opening that library fails, or the library opens but the entry
  symbol is missing, \<open>load_ndilib\<close> returns the null pointer: after the search it
  creates one library object and tries one load, and nothing that follows probes or
  lists a location or creates or loads another library, even when a loadable library
  exists at a later location.
\<close>

theorem load_ndilib_no_fallback:
  assumes "fst (locate env) \<noteq> []"
    and "\<not> library_loads env (fst (locate env)) \<or> \<not> entry_resolves env (fst (locate env))"
  shows "fst (load_ndilib env s) = None
     \<and> trace (snd (load_ndilib env s)) =
         trace s @ snd (locate env)
         @ [LibNew (next_addr s) (fst (locate env)), LibLoad (next_addr s)]
         @ (if library_loads env (fst (locate env))
            then [LibResolve (next_addr s), LogError ''ERR-405'', LogError ''ERR-404'']
            else [LogError ''ERR-402'', LibDelete (next_addr s), LogError ''ERR-404''])
     \<and> \<not> list_ex is_search_event
           (if library_loads env (fst (locate env))
            then [LibResolve (next_addr s), LogError ''ERR-405'', LogError ''ERR-404'']
            else [LogError ''ERR-402'', LibDelete (next_addr s), LogError ''ERR-404''])"
proof -
  obtain lib_path probes where l: "locate env = (lib_path, probes)" by (cases "locate env")
  show ?thesis
    using assms unfolding l
    by (auto simp: load_ndilib_def l emit_def Let_def)
qed


theorem load_ndilib_no_fallback_witness:
  "fst (locate macos_env_bad_bundle) \<noteq> []
   \<and> \<not> library_loads macos_env_bad_bundle (fst (locate macos_env_bad_bundle))
   \<and> is_regular_file macos_env_bad_bundle ''/usr/local/lib/libndi.dylib''
   \<and> library_loads macos_env_bad_bundle ''/usr/local/lib/libndi.dylib''
   \<and> entry_resolves macos_env_bad_bundle ''/usr/local/lib/libndi.dylib''
   \<and> fst (load_ndilib macos_env_bad_bundle initial_state) = None
   \<and> trace (snd (load_ndilib macos_env_bad_bundle initial_state)) =
       [Probe ''/Applications/OBS.app/Contents/Frameworks/libndi.dylib'',
        LibNew 0 ''/Applications/OBS.app/Contents/Frameworks/libndi.dylib'',
        LibLoad 0, LogError ''ERR-402'', LibDelete 0, LogError ''ERR-404'']
   \<and> fst (locate macos_env_no_entry) \<noteq> []
   \<and> \<not> entry_resolves macos_env_no_entry (fst (locate macos_env_no_entry))
   \<and> fst (load_ndilib macos_env_no_entry initial_state) = None
   \<and> trace (snd (load_ndilib macos_env_no_entry initial_state)) =
       [Probe ''/Applications/OBS.app/Contents/Frameworks/libndi.dylib'',
        LibNew 0 ''/Applications/OBS.app/Contents/Frameworks/libndi.dylib'',
        LibLoad 0, LibResolve 0, LogError ''ERR-405'', LogError ''ERR-404'']"
proof -
  have l: "locate macos_env_bad_bundle =
      (''/Applications/OBS.app/Contents/Frameworks/libndi.dylib'',
       [Probe ''/Applications/OBS.app/Contents/Frameworks/libndi.dylib''])"
    by code_simp
  have a: "\<not> library_loads macos_env_bad_bundle ''/Applications/OBS.app/Contents/Frameworks/libndi.dylib''"
    "is_regular_file macos_env_bad_bundle ''/usr/local/lib/libndi.dylib''"
    "library_loads macos_env_bad_bundle ''/usr/local/lib/libndi.dylib''"
    "entry_resolves macos_env_bad_bundle ''/usr/local/lib/libndi.dylib''"
    by code_simp+
  have l': "locate macos_env_no_entry =
      (''/Applications/OBS.app/Contents/Frameworks/libndi.dylib'',
       [Probe ''/Applications/OBS.app/Contents/Frameworks/libndi.dylib''])"
    by code_simp
  have a': "\<not> entry_resolves macos_env_no_entry ''/Applications/OBS.app/Contents/Frameworks/libndi.dylib''"
    "library_loads macos_env_no_entry ''/Applications/OBS.app/Contents/Frameworks/libndi.dylib''"
    by code_simp+
  have i: "trace initial_state = []" "next_addr initial_state = 0"
    by (simp_all add: initial_state_def)
  show ?thesis
    using load_ndilib_no_fallback [of macos_env_bad_bundle initial_state]
      load_ndilib_no_fallback [of macos_env_no_entry initial_state]
    by (simp add: l a l' a' i)
qed

subsection \<open>What the failure paths leave behind, for every environment\<close>

lemma load_ndilib_entry_missing:
  assumes "fst (locate env) \<noteq> []"
    and "library_loads env (fst (locate env))"
    and "\<not> entry_resolves env (fst (locate env))"
  shows "fst (load_ndilib env s) = None
     \<and> loaded_lib (snd (load_ndilib env s)) = Some (next_addr s)
     \<and> heap (snd (load_ndilib env s)) (next_addr s) = Some (fst (locate env))"
proof -
  obtain lib_path probes where l: "locate env = (lib_path, probes)" by (cases "locate env")
  show ?thesis
    using assms unfolding l by (simp add: load_ndilib_def l emit_def Let_def)
qed

lemma obs_module_load_keeps_handle:
  "loaded_lib (snd (obs_module_load env s)) = loaded_lib (snd (load_ndilib env s))
   \<and> heap (snd (obs_module_load env s)) = heap (snd (load_ndilib env s))
   \<and> ndiLib (snd (obs_module_load env s)) = fst (load_ndilib env s)"
proof -
  obtain p s1 where l: "load_ndilib env s = (p, s1)" by (cases "load_ndilib env s")
  show ?thesis by (simp add: obs_module_load_def l emit_def Let_def)
qed

lemma obs_module_unload_keeps_loaded_lib:
  "obs_module_unload s = Inr s' \<Longrightarrow> loaded_lib s' = loaded_lib s \<and> ndiLib s' = None"
  by (auto simp: obs_module_unload_def emit_def Let_def split: option.splits if_splits)

lemma obs_module_unload_twice:
  assumes "loaded_lib s = Some a" and "obs_module_unload s = Inr s'"
  shows "obs_module_unload s' = Inl (DeleteOfDeadObject a)"
proof -
  have "loaded_lib s' = Some a" "ndiLib s' = None" "heap s' a = None"
    using assms
    by (auto simp: obs_module_unload_def emit_def Let_def split: option.splits if_splits)
  then show ?thesis by (simp add: obs_module_unload_def)
qed

text \<open>
  Claim C2 says that when the library opens but the entry symbol is not resolved, the
  loader reports the failure and releases the handle it has just opened, so that the
  global handle is null afterwards. The code on such a library (lines 303-310): the
  failure is logged as ERR-405 and the null pointer is returned, but the library object
  is not deleted and \<open>loaded_lib\<close> still points to it. The branch for a failed load
  (lines 316-317) deletes the object and resets the pointer; this one does not.
\<close>

theorem entry_point_missing_leaves_handle_open:
  "fst (load_ndilib macos_env_no_entry initial_state) = None
   \<and> loaded_lib (snd (load_ndilib macos_env_no_entry initial_state)) = Some 0
   \<and> heap (snd (load_ndilib macos_env_no_entry initial_state)) 0 =
       Some ''/Applications/OBS.app/Contents/Frameworks/libndi.dylib''
   \<and> trace (snd (load_ndilib macos_env_no_entry initial_state)) =
       [Probe ''/Applications/OBS.app/Contents/Frameworks/libndi.dylib'',
        LibNew 0 ''/Applications/OBS.app/Contents/Frameworks/libndi.dylib'',
        LibLoad 0, LibResolve 0, LogError ''ERR-405'', LogError ''ERR-404'']"
  by code_simp

text \<open>
  Claim C7 says that when the interface pointer was obtained but \<open>initialize\<close>
  reports failure, the module load returns false and the library handle is released.
  The code on such a library (lines 163-168): ERR-406 is logged and false is returned,
  but the library object stays alive, \<open>loaded_lib\<close> still points to it and \<open>ndiLib\<close>
  keeps the interface pointer.
\<close>

theorem initialize_failure_leaves_handle_open:
  "fst (obs_module_load macos_env_no_init initial_state) = False
   \<and> loaded_lib (snd (obs_module_load macos_env_no_init initial_state)) = Some 0
   \<and> heap (snd (obs_module_load macos_env_no_init initial_state)) 0 =
       Some ''/Applications/OBS.app/Contents/Frameworks/libndi.dylib''
   \<and> ndiLib (snd (obs_module_load macos_env_no_init initial_state)) = Some 1
   \<and> trace (snd (obs_module_load macos_env_no_init initial_state)) =
       [Probe ''/Applications/OBS.app/Contents/Frameworks/libndi.dylib'',
        LibNew 0 ''/Applications/OBS.app/Contents/Frameworks/libndi.dylib'',
        LibLoad 0, LibResolve 0, EntryCall 0, NdiInitialize, LogError ''ERR-406'']"
  by code_simp

text \<open>
  Claim C8 says that for a reported version below the required minimum the module load
  returns false, registers nothing and releases the library handle. The code on a
  library of version 5.6.1 (lines 172-182): ERR-425 is logged, nothing is registered
  and false is returned, but the library object stays alive and both globals keep
  their pointers.
\<close>

theorem unsupported_version_leaves_handle_open:
  "version_regex (ndi_version macos_env_old) = ''5.6.1.0''
   \<and> version_field ''5.6.1.0'' 0 < version_field PLUGIN_MIN_NDI_VERSION 0
   \<and> fst (obs_module_load macos_env_old initial_state) = False
   \<and> loaded_lib (snd (obs_module_load macos_env_old initial_state)) = Some 0
   \<and> heap (snd (obs_module_load macos_env_old initial_state)) 0 =
       Some ''/Applications/OBS.app/Contents/Frameworks/libndi.dylib''
   \<and> ndiLib (snd (obs_module_load macos_env_old initial_state)) = Some 1
   \<and> trace (snd (obs_module_load macos_env_old initial_state)) =
       [Probe ''/Applications/OBS.app/Contents/Frameworks/libndi.dylib'',
        LibNew 0 ''/Applications/OBS.app/Contents/Frameworks/libndi.dylib'',
        LibLoad 0, LibResolve 0, EntryCall 0, NdiInitialize, LogError ''ERR-425'']"
  by code_simp

text \<open>
  Claim C3 says that a second teardown makes no second destroy call and no second
  release of the handle, the first one having reset both globals. The code
  (lines 204-218): the first \<open>obs_module_unload\<close> after a successful load calls
  \<open>destroy\<close>, resets \<open>ndiLib\<close> and deletes the library object, but does not reset
  \<open>loaded_lib\<close>; the second one makes no destroy call, finds \<open>loaded_lib\<close> non-null
  and deletes the dead object again.
\<close>

theorem second_unload_deletes_again:
  "fst (obs_module_load macos_env initial_state) = True
   \<and> (case obs_module_unload (snd (obs_module_load macos_env initial_state)) of
        Inl f \<Rightarrow> False
      | Inr s \<Rightarrow>
          trace s = trace (snd (obs_module_load macos_env initial_state)) @ [NdiDestroy, LibDelete 0]
          \<and> fault_of (obs_module_unload s) = Some (DeleteOfDeadObject 0))
   \<and> fault_of (run_hooks macos_env [Load, Unload, Unload] initial_state)
       = Some (DeleteOfDeadObject 0)"
  by code_simp

text \<open>
  Claim C4 says that both globals are null before a load and after an unload, and that
  the interface pointer is non-null only while the library handle is alive. The code,
  after a successful load followed by an unload: \<open>ndiLib\<close> is null, but \<open>loaded_lib\<close>
  still holds the address of the deleted library object.
\<close>

theorem handle_not_null_after_unload:
  "(case run_hooks macos_env [Load, Unload] initial_state of
      Inl f \<Rightarrow> False
    | Inr s \<Rightarrow> ndiLib s = None \<and> loaded_lib s = Some 0 \<and> heap s 0 = None)"
  by code_simp

end
